theory Spec2Isabelle
  imports
    Main
    "HOL-Library.Sublist"
    "HOL-Library.Multiset"
    "HOL-Library.Char_ord"
    "HOL-Library.List_Lexorder"
begin

section \<open>Python strings\<close>

text \<open>
  A Python \<open>str\<close> is modelled as a \<^typ>\<open>string\<close> whose characters are the code points
  below 256. The functions of this section are the \<open>str\<close> methods the four scripts call.
\<close>

text \<open>\<open>str.isspace\<close> on one character: the white space that \<open>split()\<close> and \<open>strip()\<close>
  with no argument cut at.\<close>

definition isspace :: "char \<Rightarrow> bool" where
  "isspace c =
     (let n = (of_char c :: nat)
      in (9 \<le> n \<and> n \<le> 13) \<or> (28 \<le> n \<and> n \<le> 32) \<or> n = 133 \<or> n = 160)"

text \<open>\<open>str.split()\<close> with no argument: the maximal runs of characters that are not white
  space, in order. \<open>cur\<close> is the token being read.\<close>

fun split_from :: "string \<Rightarrow> string \<Rightarrow> string list" where
  "split_from cur [] = (if cur = [] then [] else [cur])"
| "split_from cur (c # cs) =
     (if isspace c
      then (if cur = [] then split_from [] cs else cur # split_from [] cs)
      else split_from (cur @ [c]) cs)"

definition str_split :: "string \<Rightarrow> string list" where
  "str_split s = split_from [] s"

text \<open>\<open>str.strip()\<close> with no argument.\<close>

definition str_strip :: "string \<Rightarrow> string" where
  "str_strip s = rev (dropWhile isspace (rev (dropWhile isspace s)))"

text \<open>\<open>sub in s\<close> for two strings: \<open>sub\<close> starts at some position of \<open>s\<close>.\<close>

fun str_in :: "string \<Rightarrow> string \<Rightarrow> bool" where
  "str_in sub [] = (sub = [])"
| "str_in sub (c # cs) = (prefix sub (c # cs) \<or> str_in sub cs)"

text \<open>\<open>str.lower()\<close>: the upper-case letters below code point 256 are \<open>A\<close> to \<open>Z\<close> and
  the Latin-1 capitals 192 to 222 without the multiplication sign 215; each has its
  lower-case letter 32 places on.\<close>

definition lower_char :: "char \<Rightarrow> char" where
  "lower_char c =
     (let n = (of_char c :: nat)
      in if (65 \<le> n \<and> n \<le> 90) \<or> (192 \<le> n \<and> n \<le> 214) \<or> (216 \<le> n \<and> n \<le> 222)
         then char_of (n + 32) else c)"

definition lower :: "string \<Rightarrow> string" where
  "lower s = map lower_char s"

text \<open>\<open>s.endswith((a, b))\<close> with a tuple of two suffixes.\<close>

definition endswith :: "string \<Rightarrow> string \<Rightarrow> string \<Rightarrow> bool" where
  "endswith s a b = (suffix a s \<or> suffix b s)"

text \<open>\<open>s.rsplit(".", 1)[0]\<close>: what stands before the last dot, and all of \<open>s\<close> when it
  has no dot.\<close>

definition rsplit_dot_head :: "string \<Rightarrow> string" where
  "rsplit_dot_head s =
     (if CHR ''.'' \<in> set s then rev (tl (dropWhile (\<lambda>c. c \<noteq> CHR ''.'') (rev s))) else s)"

section \<open>Errors and dictionaries\<close>

text \<open>The exceptions the scripts can raise while they read their lists. None is caught, so
  each one ends the run.\<close>

datatype error = IndexError | ValueError

text \<open>
  A Python \<open>dict\<close> whose values are lists, as an association list in insertion order with
  each key once. \<open>d.setdefault(k, []).append(v)\<close> appends \<open>v\<close> to the list of an old key
  and puts a new key last.
\<close>

type_synonym ('k, 'v) dict = "('k \<times> 'v list) list"

fun setdefault_append :: "'k \<Rightarrow> 'v \<Rightarrow> ('k, 'v) dict \<Rightarrow> ('k, 'v) dict" where
  "setdefault_append k v [] = [(k, [v])]"
| "setdefault_append k v ((k', vs) # d) =
     (if k' = k then (k', vs @ [v]) # d else (k', vs) # setdefault_append k v d)"

section \<open>extract\_and\_rename\_sequences.py: the list file\<close>

text \<open>
  The loop over the lines of the list file. \<open>parts[0]\<close> and \<open>parts[1]\<close> raise
  \<open>IndexError\<close> on a line of fewer than two tokens; nothing looks at \<open>parts[2:]\<close>.
\<close>

fun load_list :: "string list \<Rightarrow> (string, string) dict \<Rightarrow> error + (string, string) dict" where
  "load_list [] sequences = Inr sequences"
| "load_list (line # rest) sequences =
     (case str_split line of
        string_id # sequence_id # _ \<Rightarrow>
          load_list rest (setdefault_append sequence_id string_id sequences)
      | _ \<Rightarrow> Inl IndexError)"

section \<open>Sequence records\<close>

text \<open>
  A \<open>SeqRecord\<close> as \<open>SeqIO.parse\<close> yields it, with the attributes the scripts and the FASTA
  writer read. Parsing and writing are \<open>Bio.SeqIO\<close>'s: a script's input is the list of
  records its file parses to, and its output the list of records it hands to
  \<open>SeqIO.write\<close>, in the order it hands them over.
\<close>

record seq_record =
  record_id :: string
  name :: string
  description :: string
  seq :: string

section \<open>Natural sorting\<close>

text \<open>
  Modelled from the spec: \<open>natsort\<close> is a library the scripts import, so the code of
  \<open>natsorted\<close> is not under the repository's sources. This section follows the
  specification's comparator: embedded runs of digits count as numbers, and the sort is
  stable. The digits are the characters \<open>0\<close> to \<open>9\<close>.
\<close>

definition isdigit :: "char \<Rightarrow> bool" where
  "isdigit c = (CHR ''0'' \<le> c \<and> c \<le> CHR ''9'')"

definition int_of_digits :: "string \<Rightarrow> nat" where
  "int_of_digits ds = foldl (\<lambda>n c. 10 * n + (of_char c - 48)) 0 ds"

text \<open>The maximal runs of a string, each with the flag of being a run of digits.\<close>

fun chunks :: "string \<Rightarrow> (bool \<times> string) list" where
  "chunks [] = []"
| "chunks (c # cs) =
     (case chunks cs of
        [] \<Rightarrow> [(isdigit c, [c])]
      | (d, run) # rest \<Rightarrow>
          if d = isdigit c then (d, c # run) # rest
          else (isdigit c, [c]) # (d, run) # rest)"

datatype token = Str string | Num nat

fun token_of :: "bool \<times> string \<Rightarrow> token" where
  "token_of (d, run) = (if d then Num (int_of_digits run) else Str run)"

text \<open>
  Modelled from the spec: the key of a string, which is missing with the library. It is
  the tuple of the string's maximal runs of digits, each read as a number, and of the
  text between them, with an empty text put first when the string starts with a digit.
\<close>

definition natsort_key :: "string \<Rightarrow> token list" where
  "natsort_key s =
     (case map token_of (chunks s) of
        Num n # ts \<Rightarrow> Str [] # Num n # ts
      | ts \<Rightarrow> ts)"

text \<open>
  Tokens compare as Python compares the elements of two such tuples: two texts as
  strings, two numbers as integers. A text and a number never meet at one position of two
  keys (\<open>natsort_key_alternates\<close> below); the order puts numbers first there.
\<close>

instantiation token :: linorder
begin

fun less_eq_token :: "token \<Rightarrow> token \<Rightarrow> bool" where
  "less_eq_token (Str a) (Str b) = (a \<le> b)"
| "less_eq_token (Num m) (Num n) = (m \<le> n)"
| "less_eq_token (Num m) (Str b) = True"
| "less_eq_token (Str a) (Num n) = False"

definition less_token :: "token \<Rightarrow> token \<Rightarrow> bool" where
  "less_token x y = (x \<le> y \<and> \<not> y \<le> x)"

instance
proof
  fix x y z :: token
  show "(x < y) = (x \<le> y \<and> \<not> y \<le> x)"
    by (simp add: less_token_def)
  show "x \<le> x"
    by (cases x) simp_all
  show "x \<le> y \<Longrightarrow> y \<le> z \<Longrightarrow> x \<le> z"
    by (cases x; cases y; cases z) auto
  show "x \<le> y \<Longrightarrow> y \<le> x \<Longrightarrow> x = y"
    by (cases x; cases y) auto
  show "x \<le> y \<or> y \<le> x"
    by (cases x; cases y) auto
qed

end

text \<open>
  Modelled from the spec: \<open>natsorted(xs, key=k)\<close>, which is missing with the library, as
  the stable sort of \<open>xs\<close> under the key \<open>natsort_key (k x)\<close>.
\<close>

definition natsorted :: "('a \<Rightarrow> string) \<Rightarrow> 'a list \<Rightarrow> 'a list" where
  "natsorted key xs = sort_key (\<lambda>x. natsort_key (key x)) xs"

text \<open>A tuple in which texts and numbers take turns; \<open>number\<close> says which of the two is
  due first.\<close>

fun alternates :: "bool \<Rightarrow> token list \<Rightarrow> bool" where
  "alternates number [] = True"
| "alternates number (Str s # ts) = (\<not> number \<and> alternates True ts)"
| "alternates number (Num n # ts) = (number \<and> alternates False ts)"

section \<open>extract\_and\_rename\_sequences.py: the records\<close>

text \<open>The copy the inner loop appends: \<open>record[:]\<close> with a new \<open>id\<close> and an empty
  \<open>description\<close>.\<close>

definition rename_record :: "string \<Rightarrow> seq_record \<Rightarrow> seq_record" where
  "rename_record sequence_id record =
     record\<lparr>record_id := sequence_id @ ''|'' @ record_id record, description := []\<rparr>"

text \<open>\<open>for sequence_id in sequences[record.id]\<close>, appending to \<open>records\<close>.\<close>

fun extract_labels :: "seq_record \<Rightarrow> string list \<Rightarrow> seq_record list \<Rightarrow> seq_record list" where
  "extract_labels record [] records = records"
| "extract_labels record (sequence_id # rest) records =
     extract_labels record rest (records @ [rename_record sequence_id record])"

text \<open>\<open>for record in SeqIO.parse(input_file, "fasta")\<close>, with the test
  \<open>record.id in sequences\<close>.\<close>

fun extract_records ::
  "(string, string) dict \<Rightarrow> seq_record list \<Rightarrow> seq_record list \<Rightarrow> seq_record list" where
  "extract_records sequences [] records = records"
| "extract_records sequences (record # rest) records =
     (case map_of sequences (record_id record) of
        None \<Rightarrow> extract_records sequences rest records
      | Some string_ids \<Rightarrow>
          extract_records sequences rest (extract_labels record string_ids records))"

text \<open>The script: the records it hands to \<open>SeqIO.write\<close>, or the exception of the list
  file.\<close>

definition extract_and_rename_sequences ::
  "seq_record list \<Rightarrow> string list \<Rightarrow> error + seq_record list" where
  "extract_and_rename_sequences input list_lines =
     (case load_list list_lines [] of
        Inl e \<Rightarrow> Inl e
      | Inr sequences \<Rightarrow>
          Inr (natsorted (\<lambda>record. lower (record_id record))
                 (extract_records sequences input [])))"

section \<open>keep\_verified\_sequences.py\<close>

text \<open>\<open>for line in file: keep_strings.append(line.strip() + "|")\<close>.\<close>

fun read_keep_strings :: "string list \<Rightarrow> string list \<Rightarrow> string list" where
  "read_keep_strings [] keep_strings = keep_strings"
| "read_keep_strings (line # rest) keep_strings =
     read_keep_strings rest (keep_strings @ [str_strip line @ ''|''])"

text \<open>The loop over the parsed records, with
  \<open>any(string in record.id for string in keep_strings)\<close>.\<close>

fun keep_records :: "string list \<Rightarrow> seq_record list \<Rightarrow> seq_record list \<Rightarrow> seq_record list" where
  "keep_records keep_strings [] kept_records = kept_records"
| "keep_records keep_strings (record # rest) kept_records =
     (if list_ex (\<lambda>string. str_in string (record_id record)) keep_strings
      then keep_records keep_strings rest (kept_records @ [record])
      else keep_records keep_strings rest kept_records)"

definition keep_verified_sequences :: "seq_record list \<Rightarrow> string list \<Rightarrow> seq_record list" where
  "keep_verified_sequences input keep_lines =
     keep_records (read_keep_strings keep_lines []) input []"

section \<open>merge\_fasta\_files.py\<close>

text \<open>
  The input directory is the list of its entries in the order \<open>os.listdir\<close> returns them,
  each a file name with the records the file parses to.
\<close>

type_synonym fasta_dir = "(string \<times> seq_record list) list"

text \<open>The record appended for one record of the file \<open>file_name\<close>.\<close>

definition gene_record :: "string \<Rightarrow> seq_record \<Rightarrow> seq_record" where
  "gene_record file_name record =
     record\<lparr>record_id := rsplit_dot_head file_name @ ''|'' @ record_id record,
            description := []\<rparr>"

text \<open>\<open>for record in SeqIO.parse(input, "fasta")\<close>, appending to \<open>records\<close>.\<close>

fun merge_file :: "string \<Rightarrow> seq_record list \<Rightarrow> seq_record list \<Rightarrow> seq_record list" where
  "merge_file file_name [] records = records"
| "merge_file file_name (record # rest) records =
     merge_file file_name rest (records @ [gene_record file_name record])"

text \<open>\<open>for file_name in os.listdir(input_dir)\<close>, with the test on the extension.\<close>

fun merge_files :: "fasta_dir \<Rightarrow> seq_record list \<Rightarrow> seq_record list" where
  "merge_files [] records = records"
| "merge_files ((file_name, parsed) # rest) records =
     (if endswith file_name ''.fasta'' ''.fa''
      then merge_files rest (merge_file file_name parsed records)
      else merge_files rest records)"

definition merge_fasta_files :: "fasta_dir \<Rightarrow> seq_record list" where
  "merge_fasta_files listing =
     natsorted (\<lambda>record. lower (record_id record)) (merge_files listing [])"

section \<open>generate\_protein\_table.py\<close>

text \<open>
  The input folder is the list of its entries in the order \<open>os.listdir\<close> returns them, each a
  file name with the lines \<open>readlines\<close> gives for it.
\<close>

type_synonym status_dir = "(string \<times> string list) list"

text \<open>\<open>for line in lines\<close>: unpacking \<open>line.strip().split()\<close> into two names raises
  \<open>ValueError\<close> unless there are exactly two tokens.\<close>

fun read_statuses ::
  "string list \<Rightarrow> (string, string) dict \<Rightarrow> error + (string, string) dict" where
  "read_statuses [] protein_info = Inr protein_info"
| "read_statuses (line # rest) protein_info =
     (case str_split (str_strip line) of
        [protein, status] \<Rightarrow> read_statuses rest (setdefault_append protein status protein_info)
      | _ \<Rightarrow> Inl ValueError)"

text \<open>\<open>for file in files\<close>.\<close>

fun process_files :: "status_dir \<Rightarrow> (string, string) dict \<Rightarrow> error + (string, string) dict" where
  "process_files [] protein_info = Inr protein_info"
| "process_files ((file, lines) # rest) protein_info =
     (case read_statuses lines protein_info of
        Inl e \<Rightarrow> Inl e
      | Inr protein_info' \<Rightarrow> process_files rest protein_info')"

text \<open>\<open>0 if status == 'missing' else 1\<close>.\<close>

definition presence :: "string \<Rightarrow> nat" where
  "presence status = (if status = ''missing'' then 0 else 1)"

text \<open>
  The script: the header row and the protein rows it gives to the \<open>csv\<close> writer, a row as
  its first cell with the numbers after it; or the exception of a status line, raised
  before the output file is opened. \<open>sorted(os.listdir(input_folder), key=str.lower)\<close>
  sorts the names; here each name carries the lines of its file along.
\<close>

definition generate_protein_table ::
  "status_dir \<Rightarrow> error + string list \<times> (string \<times> nat list) list" where
  "generate_protein_table listing =
     (let files = sort_key (\<lambda>entry. lower (fst entry)) listing
      in case process_files files [] of
           Inl e \<Rightarrow> Inl e
         | Inr protein_info \<Rightarrow>
             Inr ([] # map fst files,
                  map (\<lambda>(protein, statuses). (protein, map presence statuses)) protein_info))"

section \<open>Runs\<close>



section \<open>Dictionaries built by a loop\<close>

lemma map_of_setdefault_append:
  "map_of (setdefault_append k v d) k' =
     (if k' = k then Some ((case map_of d k of None \<Rightarrow> [] | Some vs \<Rightarrow> vs) @ [v])
      else map_of d k')"
  by (induction d) auto

lemma keys_setdefault_append:
  "map fst (setdefault_append k v d) =
     (if k \<in> set (map fst d) then map fst d else map fst d @ [k])"
  by (induction d) force+

text \<open>What a key holds after a loop of \<open>setdefault(f x, []).append(g x)\<close>: the values it
  held before, then those of the loop's elements with that key, in the loop's order.\<close>

lemma map_of_fold_setdefault_append:
  "map_of (fold (\<lambda>x. setdefault_append (f x) (g x)) xs d) k =
     (case map g (filter (\<lambda>x. f x = k) xs) of
        [] \<Rightarrow> map_of d k
      | new \<Rightarrow> Some ((case map_of d k of None \<Rightarrow> [] | Some vs \<Rightarrow> vs) @ new))"
proof (induction xs arbitrary: d)
  case Nil
  show ?case by simp
next
  case (Cons x xs)
  show ?case
    by (simp add: Cons.IH map_of_setdefault_append split: list.splits option.splits)
qed

section \<open>Loading the list file\<close>

lemma load_list_fold:
  "load_list lines d =
     (if \<exists>line\<in>set lines. length (str_split line) < 2 then Inl IndexError
      else Inr (fold (\<lambda>line. setdefault_append (str_split line ! 1) (str_split line ! 0))
                  lines d))"
proof (induction lines arbitrary: d)
  case Nil
  show ?case by simp
next
  case (Cons line rest)
  show ?case
  proof (cases "str_split line")
    case Nil
    then show ?thesis by simp
  next
    case outer: (Cons a as)
    show ?thesis
    proof (cases as)
      case Nil
      with outer show ?thesis by simp
    next
      case inner: (Cons b bs)
      with outer show ?thesis by (simp add: Cons.IH)
    qed
  qed
qed

text \<open>
  Claim C1, as the code has it. A line of the list file with fewer than two tokens (an
  empty line too) raises \<open>IndexError\<close>, which ends the run, whatever the other lines are.
  When every line has two tokens or more, loading succeeds and no line is skipped: the
  dictionary is the one obtained by entering, line after line, the first token under the
  second. Tokens after the second are not looked at.
\<close>

theorem load_list_fails_iff_line_below_two_tokens:
  "((\<exists>line\<in>set lines. length (str_split line) < 2) \<longrightarrow> load_list lines [] = Inl IndexError) \<and>
   ((\<forall>line\<in>set lines. 2 \<le> length (str_split line)) \<longrightarrow>
      load_list lines [] =
        Inr (fold (\<lambda>line. setdefault_append (str_split line ! 1) (str_split line ! 0))
               lines []))"
proof (intro conjI impI)
  assume "\<exists>line\<in>set lines. length (str_split line) < 2"
  then show "load_list lines [] = Inl IndexError"
    by (simp add: load_list_fold)
next
  assume "\<forall>line\<in>set lines. 2 \<le> length (str_split line)"
  then have "\<not> (\<exists>line\<in>set lines. length (str_split line) < 2)"
    by (simp add: not_less)
  then show "load_list lines [] =
      Inr (fold (\<lambda>line. setdefault_append (str_split line ! 1) (str_split line ! 0)) lines [])"
    by (simp only: load_list_fold if_False)
qed

theorem load_list_fails_iff_line_below_two_tokens_witness:
  "load_list [''alpha seq1'', ''beta''] [] = Inl IndexError \<and>
   load_list [''alpha seq1 extra'', ''beta seq1''] [] = Inr [(''seq1'', [''alpha'', ''beta''])]"
  using load_list_fails_iff_line_below_two_tokens [of "[''alpha seq1'', ''beta'']"]
    load_list_fails_iff_line_below_two_tokens [of "[''alpha seq1 extra'', ''beta seq1'']"]
  by (simp add: str_split_def isspace_def)

text \<open>
  Claim C1 as the specification words it fails: a line of three tokens is not an error. The
  loader takes the first two tokens and drops the third.
\<close>

theorem load_list_accepts_three_tokens:
  "length (str_split ''alpha seq1 extra'') = 3 \<and>
   load_list [''alpha seq1 extra''] [] = Inr [(''seq1'', [''alpha''])]"
  by (simp add: str_split_def isspace_def)

section \<open>What extract\_and\_rename\_sequences.py writes\<close>

lemma extract_labels_append:
  "extract_labels record string_ids records =
     records @ map (\<lambda>sequence_id. rename_record sequence_id record) string_ids"
  by (induction string_ids arbitrary: records) simp_all

lemma extract_records_concat:
  "extract_records sequences input records =
     records @ concat (map (\<lambda>record.
        case map_of sequences (record_id record) of
          None \<Rightarrow> []
        | Some string_ids \<Rightarrow> map (\<lambda>sequence_id. rename_record sequence_id record) string_ids)
      input)"
  by (induction input arbitrary: records)
    (simp_all add: extract_labels_append split: option.splits)

lemma mset_natsorted: "mset (natsorted key xs) = mset xs"
  by (simp add: natsorted_def)

text \<open>
  Claim C3. Let the list file load to the dictionary \<open>sequences\<close>. The labels under a key
  are the first tokens of the lines whose second token is the key, in the order of the
  lines and with repetitions; an identifier that is no line's second token is not a key.
  The loop over the input produces, record after record, one copy per label of the
  record's identifier, in the order of the labels, with the identifier
  \<open>label|identifier\<close> and an empty description, and nothing for a record whose identifier
  is not a key. The script then sorts these copies: what it writes has the same records,
  each as many times.
\<close>

theorem extract_records_one_copy_per_label:
  assumes "load_list list_lines [] = Inr sequences"
  shows "(\<forall>k. map_of sequences k =
            (case [str_split line ! 0. line \<leftarrow> list_lines, str_split line ! 1 = k] of
               [] \<Rightarrow> None
             | labels \<Rightarrow> Some labels)) \<and>
         extract_records sequences input [] =
           concat (map (\<lambda>record.
              map (\<lambda>label.
                     record\<lparr>record_id := label @ ''|'' @ record_id record, description := []\<rparr>)
                [str_split line ! 0. line \<leftarrow> list_lines, str_split line ! 1 = record_id record])
            input) \<and>
         (\<exists>written. extract_and_rename_sequences input list_lines = Inr written \<and>
            mset written = mset (extract_records sequences input []))"
proof -
  let ?f = "\<lambda>line. str_split line ! 1" and ?g = "\<lambda>line. str_split line ! 0"
  from assms
  have seqs: "sequences = fold (\<lambda>line. setdefault_append (?f line) (?g line)) list_lines []"
    by (simp add: load_list_fold split: if_splits)
  have labels: "[?g line. line \<leftarrow> list_lines, ?f line = k] =
      map ?g (filter (\<lambda>line. ?f line = k) list_lines)" for k
    by (induction list_lines) simp_all
  have key: "map_of sequences k =
      (case map ?g (filter (\<lambda>line. ?f line = k) list_lines) of
         [] \<Rightarrow> None | new \<Rightarrow> Some new)" for k
    unfolding seqs by (simp add: map_of_fold_setdefault_append split: list.splits)
  then have "(case map_of sequences (record_id r) of
          None \<Rightarrow> []
        | Some string_ids \<Rightarrow> map (\<lambda>sequence_id. rename_record sequence_id r) string_ids) =
      map (\<lambda>label. rename_record label r)
        (map ?g (filter (\<lambda>line. ?f line = record_id r) list_lines))" for r
    by (simp split: list.splits del: map_map)
  then have loop: "extract_records sequences input [] =
      concat (map (\<lambda>r. map (\<lambda>label. rename_record label r)
        [?g line. line \<leftarrow> list_lines, ?f line = record_id r]) input)"
    unfolding labels by (simp add: extract_records_concat)
  have written: "\<exists>written. extract_and_rename_sequences input list_lines = Inr written \<and>
      mset written = mset (extract_records sequences input [])"
    by (simp add: extract_and_rename_sequences_def assms mset_natsorted)
  from key loop written show ?thesis
    unfolding labels rename_record_def by simp
qed

theorem extract_records_one_copy_per_label_witness:
  "load_list [''alpha seq1'', ''beta seq1'', ''alpha seq1''] [] =
     Inr [(''seq1'', [''alpha'', ''beta'', ''alpha''])] \<and>
   extract_records [(''seq1'', [''alpha'', ''beta'', ''alpha''])]
     [\<lparr>record_id = ''seq1'', name = ''seq1'', description = ''seq1 kinase'', seq = ''MKV''\<rparr>,
      \<lparr>record_id = ''seq2'', name = ''seq2'', description = ''seq2'', seq = ''MA''\<rparr>] [] =
     [\<lparr>record_id = ''alpha|seq1'', name = ''seq1'', description = [], seq = ''MKV''\<rparr>,
      \<lparr>record_id = ''beta|seq1'', name = ''seq1'', description = [], seq = ''MKV''\<rparr>,
      \<lparr>record_id = ''alpha|seq1'', name = ''seq1'', description = [], seq = ''MKV''\<rparr>]"
proof -
  have loaded: "load_list [''alpha seq1'', ''beta seq1'', ''alpha seq1''] [] =
      Inr [(''seq1'', [''alpha'', ''beta'', ''alpha''])]"
    by (simp add: str_split_def isspace_def)
  show ?thesis
    using extract_records_one_copy_per_label [OF loaded,
      of "[\<lparr>record_id = ''seq1'', name = ''seq1'', description = ''seq1 kinase'', seq = ''MKV''\<rparr>,
           \<lparr>record_id = ''seq2'', name = ''seq2'', description = ''seq2'', seq = ''MA''\<rparr>]"]
    by (simp add: str_split_def isspace_def)
qed

section \<open>What keep\_verified\_sequences.py keeps\<close>

lemma str_in_iff: "str_in sub s \<longleftrightarrow> (\<exists>before after. s = before @ sub @ after)"
proof -
  have "str_in sub s \<longleftrightarrow> sublist sub s"
    by (induction s) (simp_all add: sublist_Cons_right)
  then show ?thesis
    by (simp add: sublist_def)
qed

lemma str_in_single: "str_in [c] s \<longleftrightarrow> c \<in> set s"
  by (induction s) auto

lemma str_strip_whitespace:
  assumes "\<forall>c\<in>set line. isspace c"
  shows "str_strip line = []"
proof -
  from assms have blank: "dropWhile isspace line = []"
    by (simp only: dropWhile_eq_Nil_conv)
  show ?thesis
    unfolding str_strip_def blank by simp
qed

lemma read_keep_strings_append:
  "read_keep_strings keep_lines keep_strings =
     keep_strings @ map (\<lambda>line. str_strip line @ ''|'') keep_lines"
  by (induction keep_lines arbitrary: keep_strings) simp_all

lemma keep_records_filter:
  "keep_records keep_strings input kept_records =
     kept_records @
     filter (\<lambda>record. \<exists>string\<in>set keep_strings. str_in string (record_id record)) input"
  by (induction input arbitrary: kept_records) (simp_all add: list_ex_iff)

lemma keep_verified_sequences_filter:
  "keep_verified_sequences input keep_lines =
     filter (\<lambda>record. \<exists>line\<in>set keep_lines. str_in (str_strip line @ ''|'') (record_id record))
       input"
  by (simp add: keep_verified_sequences_def read_keep_strings_append keep_records_filter)

text \<open>
  Claim C2. What the script hands to the writer is the input with the records left out
  whose identifier contains no keep string: a record stays if and only if, for some line
  of the keep list, the stripped line followed by \<open>|\<close> stands somewhere in its
  identifier. The records that stay are the input's own, unchanged and in the input's
  order. With the keep list \<open>foo\<close>, the record \<open>foo|seq1\<close> stays and \<open>foobar|seq2\<close> and
  \<open>bar|seq3\<close> do not.
\<close>

theorem keep_verified_sequences_substring_filter:
  "keep_verified_sequences input keep_lines =
     filter (\<lambda>record. \<exists>line\<in>set keep_lines. \<exists>before after.
                record_id record = before @ (str_strip line @ ''|'') @ after) input \<and>
   keep_verified_sequences
     [\<lparr>record_id = ''foo|seq1'', name = ''foo|seq1'', description = ''foo|seq1'', seq = ''MKV''\<rparr>,
      \<lparr>record_id = ''foobar|seq2'', name = ''foobar|seq2'', description = ''foobar|seq2'',
         seq = ''MA''\<rparr>,
      \<lparr>record_id = ''bar|seq3'', name = ''bar|seq3'', description = ''bar|seq3'', seq = ''MT''\<rparr>]
     [''foo''] =
     [\<lparr>record_id = ''foo|seq1'', name = ''foo|seq1'', description = ''foo|seq1'', seq = ''MKV''\<rparr>]"
proof
  show "keep_verified_sequences input keep_lines =
     filter (\<lambda>record. \<exists>line\<in>set keep_lines. \<exists>before after.
                record_id record = before @ (str_strip line @ ''|'') @ after) input"
    by (simp only: keep_verified_sequences_filter str_in_iff)
next
  show "keep_verified_sequences
     [\<lparr>record_id = ''foo|seq1'', name = ''foo|seq1'', description = ''foo|seq1'', seq = ''MKV''\<rparr>,
      \<lparr>record_id = ''foobar|seq2'', name = ''foobar|seq2'', description = ''foobar|seq2'',
         seq = ''MA''\<rparr>,
      \<lparr>record_id = ''bar|seq3'', name = ''bar|seq3'', description = ''bar|seq3'', seq = ''MT''\<rparr>]
     [''foo''] =
     [\<lparr>record_id = ''foo|seq1'', name = ''foo|seq1'', description = ''foo|seq1'', seq = ''MKV''\<rparr>]"
    by (simp add: keep_verified_sequences_def str_strip_def isspace_def)
qed

text \<open>
  Claim C10. A line of the keep list that is empty or all white space becomes the keep
  string \<open>|\<close>: it is neither skipped nor refused. Every input record whose identifier has
  a \<open>|\<close> in it is then kept, whatever the other lines of the keep list are.
\<close>

theorem blank_keep_line_keeps_every_record_with_a_bar:
  assumes "line \<in> set keep_lines" and "\<forall>c\<in>set line. isspace c"
  shows "''|'' \<in> set (read_keep_strings keep_lines []) \<and>
         filter (\<lambda>record. CHR ''|'' \<in> set (record_id record))
           (keep_verified_sequences input keep_lines) =
         filter (\<lambda>record. CHR ''|'' \<in> set (record_id record)) input"
proof
  from assms have bare: "str_strip line @ ''|'' = ''|''"
    by (simp add: str_strip_whitespace)
  with assms(1) show "''|'' \<in> set (read_keep_strings keep_lines [])"
    by (force simp add: read_keep_strings_append)
  have "\<exists>l\<in>set keep_lines. str_in (str_strip l @ ''|'') (record_id r)"
    if "CHR ''|'' \<in> set (record_id r)" for r
    using that assms(1) bare by (metis str_in_single)
  then show "filter (\<lambda>record. CHR ''|'' \<in> set (record_id record))
           (keep_verified_sequences input keep_lines) =
         filter (\<lambda>record. CHR ''|'' \<in> set (record_id record)) input"
    unfolding keep_verified_sequences_filter filter_filter
    by (intro filter_cong refl) blast
qed

theorem blank_keep_line_keeps_every_record_with_a_bar_witness:
  "''|'' \<in> set (read_keep_strings [''foo'', [CHR 0x0A]] []) \<and>
   keep_verified_sequences
     [\<lparr>record_id = ''bar|seq3'', name = ''bar|seq3'', description = ''bar|seq3'', seq = ''MT''\<rparr>,
      \<lparr>record_id = ''seq4'', name = ''seq4'', description = ''seq4'', seq = ''MA''\<rparr>]
     [''foo'', [CHR 0x0A]] =
     [\<lparr>record_id = ''bar|seq3'', name = ''bar|seq3'', description = ''bar|seq3'', seq = ''MT''\<rparr>]"
  using blank_keep_line_keeps_every_record_with_a_bar [of "[CHR 0x0A]" "[''foo'', [CHR 0x0A]]"
    "[\<lparr>record_id = ''bar|seq3'', name = ''bar|seq3'', description = ''bar|seq3'', seq = ''MT''\<rparr>,
      \<lparr>record_id = ''seq4'', name = ''seq4'', description = ''seq4'', seq = ''MA''\<rparr>]"]
  by (simp add: keep_verified_sequences_def str_strip_def isspace_def)

section \<open>Sorting with the natural key\<close>

lemma sorted_natsorted: "sorted (map (\<lambda>x. natsort_key (key x)) (natsorted key xs))"
  by (simp add: natsorted_def)

lemma natsorted_stable:
  "filter (\<lambda>x. natsort_key (key x) = k) (natsorted key xs) =
     filter (\<lambda>x. natsort_key (key x) = k) xs"
  by (simp add: natsorted_def sort_key_stable)

text \<open>The order of the input matters to a stable sort only among elements with equal
  keys.\<close>

lemma natsorted_permutation:
  assumes "mset xs' = mset xs" and "inj_on (\<lambda>x. natsort_key (key x)) (set xs)"
  shows "natsorted key xs' = natsorted key xs"
proof -
  from assms(1) have same: "mset xs = mset (natsorted key xs')"
    by (simp add: natsorted_def)
  have "sorted (map (\<lambda>x. natsort_key (key x)) (natsorted key xs'))"
    by (simp add: natsorted_def)
  with same assms(2) have "sort_key (\<lambda>x. natsort_key (key x)) xs = natsorted key xs'"
    by (rule sort_key_inj_key_eq)
  then show ?thesis
    by (simp add: natsorted_def)
qed

lemma chunks_alternate:
  "alternates (case chunks s of [] \<Rightarrow> b | (d, run) # rest \<Rightarrow> d) (map token_of (chunks s))"
proof (induction s arbitrary: b)
  case Nil
  show ?case by simp
next
  case (Cons c cs)
  from Cons.IH [of True] show ?case
    by (cases "chunks cs") (auto split: if_splits)
qed

text \<open>In every key texts and numbers take turns, a text first: where two keys are
  compared position by position, a text meets a text and a number a number.\<close>

lemma natsort_key_alternates: "alternates False (natsort_key s)"
proof (cases "chunks s")
  case Nil
  then show ?thesis by (simp add: natsort_key_def)
next
  case (Cons chunk rest)
  obtain d run where chunk: "chunk = (d, run)"
    by (cases chunk)
  from chunks_alternate [of True s] Cons chunk show ?thesis
    by (cases d) (simp_all add: natsort_key_def)
qed




lemma less_token_Num [simp]: "Num m < Num n \<longleftrightarrow> m < n"
  by (auto simp add: less_token_def)

lemma less_token_Str [simp]: "Str a < Str b \<longleftrightarrow> a < b"
  by (auto simp add: less_token_def)



section \<open>What merge\_fasta\_files.py writes\<close>

lemma rsplit_dot_head_append:
  assumes "CHR ''.'' \<notin> set ext"
  shows "rsplit_dot_head (stem @ ''.'' @ ext) = stem"
proof -
  from assms
  have "dropWhile (\<lambda>c. c \<noteq> CHR ''.'') (rev ext @ CHR ''.'' # rev stem) = CHR ''.'' # rev stem"
    by (subst dropWhile_append2) auto
  then show ?thesis
    by (simp add: rsplit_dot_head_def)
qed

lemma merge_file_append:
  "merge_file file_name parsed records = records @ map (gene_record file_name) parsed"
  by (induction parsed arbitrary: records) simp_all

lemma merge_files_concat:
  "merge_files listing records =
     records @ concat (map (\<lambda>(file_name, parsed).
        if endswith file_name ''.fasta'' ''.fa'' then map (gene_record file_name) parsed else [])
      listing)"
  by (induction listing arbitrary: records) (auto simp add: merge_file_append)

lemma mset_merge_files:
  assumes "mset listing' = mset listing"
  shows "mset (merge_files listing' []) = mset (merge_files listing [])"
proof -
  let ?g = "\<lambda>(file_name, parsed).
        if endswith file_name ''.fasta'' ''.fa'' then map (gene_record file_name) parsed else []"
  have "mset (concat (map ?g l)) = sum_mset (image_mset (\<lambda>e. mset (?g e)) (mset l))"
    for l :: fasta_dir
    by (induction l) simp_all
  with assms show ?thesis
    by (simp add: merge_files_concat)
qed

text \<open>
  Claim C4, as the code has it. The loop takes the entries of the directory whose name
  ends in \<open>.fasta\<close> or \<open>.fa\<close> and passes over the others; the function has no error
  result. Each record of a file taken is copied with the identifier
  \<open>stem|identifier\<close> and an empty description, where the stem is the file name up to its
  last dot (removing \<open>.ext\<close> from \<open>stem.ext\<close> for every \<open>ext\<close> without a dot). What is
  written is these copies, each as many times, in ascending order of the natural key of
  the lower-cased new identifier, and the copies with one and the same key in the order
  in which they were read. So the order in which the directory is listed does not change
  the output when no two different copies have the same key.
\<close>

theorem merge_fasta_files_sorted_renamed_copies:
  "merge_files listing [] =
     concat (map (\<lambda>(file_name, parsed).
        if suffix ''.fasta'' file_name \<or> suffix ''.fa'' file_name
        then map (\<lambda>record.
                    record\<lparr>record_id := rsplit_dot_head file_name @ ''|'' @ record_id record,
                           description := []\<rparr>) parsed
        else []) listing) \<and>
   (\<forall>stem ext. CHR ''.'' \<notin> set ext \<longrightarrow> rsplit_dot_head (stem @ ''.'' @ ext) = stem) \<and>
   mset (merge_fasta_files listing) = mset (merge_files listing []) \<and>
   sorted (map (\<lambda>record. natsort_key (lower (record_id record))) (merge_fasta_files listing)) \<and>
   (\<forall>k. filter (\<lambda>record. natsort_key (lower (record_id record)) = k)
          (merge_fasta_files listing) =
        filter (\<lambda>record. natsort_key (lower (record_id record)) = k)
          (merge_files listing [])) \<and>
   (\<forall>listing'. mset listing' = mset listing \<and>
        inj_on (\<lambda>record. natsort_key (lower (record_id record)))
          (set (merge_files listing [])) \<longrightarrow>
        merge_fasta_files listing' = merge_fasta_files listing)"
proof (intro conjI allI impI)
  show "merge_files listing [] =
     concat (map (\<lambda>(file_name, parsed).
        if suffix ''.fasta'' file_name \<or> suffix ''.fa'' file_name
        then map (\<lambda>record.
                    record\<lparr>record_id := rsplit_dot_head file_name @ ''|'' @ record_id record,
                           description := []\<rparr>) parsed
        else []) listing)"
  proof -
    have copy: "gene_record f =
        (\<lambda>record. record\<lparr>record_id := rsplit_dot_head f @ ''|'' @ record_id record,
                            description := []\<rparr>)" for f
      by (rule ext) (simp add: gene_record_def)
    show ?thesis
      unfolding merge_files_concat endswith_def copy by simp
  qed
next
  fix stem ext :: string
  assume "CHR ''.'' \<notin> set ext"
  then show "rsplit_dot_head (stem @ ''.'' @ ext) = stem"
    by (rule rsplit_dot_head_append)
next
  show "mset (merge_fasta_files listing) = mset (merge_files listing [])"
    by (simp add: merge_fasta_files_def mset_natsorted)
next
  show "sorted (map (\<lambda>record. natsort_key (lower (record_id record)))
      (merge_fasta_files listing))"
    unfolding merge_fasta_files_def by (rule sorted_natsorted)
next
  fix k
  show "filter (\<lambda>record. natsort_key (lower (record_id record)) = k)
          (merge_fasta_files listing) =
        filter (\<lambda>record. natsort_key (lower (record_id record)) = k)
          (merge_files listing [])"
    unfolding merge_fasta_files_def by (rule natsorted_stable)
next
  fix listing' :: fasta_dir
  assume both: "mset listing' = mset listing \<and>
        inj_on (\<lambda>record. natsort_key (lower (record_id record)))
          (set (merge_files listing []))"
  then have "mset listing' = mset listing"
    by (rule conjunct1)
  then have same: "mset (merge_files listing' []) = mset (merge_files listing [])"
    by (rule mset_merge_files)
  from both
  have "inj_on (\<lambda>x. natsort_key (lower (record_id x))) (set (merge_files listing []))"
    by (rule conjunct2)
  with same show "merge_fasta_files listing' = merge_fasta_files listing"
    unfolding merge_fasta_files_def by (rule natsorted_permutation)
qed

theorem merge_fasta_files_sorted_renamed_copies_witness:
  "merge_fasta_files
     [(''b.fa'', [\<lparr>record_id = ''y'', name = ''y'', description = ''y'', seq = ''MA''\<rparr>]),
      (''notes.txt'', []),
      (''A.fasta'', [\<lparr>record_id = ''x'', name = ''x'', description = ''x'', seq = ''MKV''\<rparr>])] =
     [\<lparr>record_id = ''A|x'', name = ''x'', description = [], seq = ''MKV''\<rparr>,
      \<lparr>record_id = ''b|y'', name = ''y'', description = [], seq = ''MA''\<rparr>] \<and>
   merge_fasta_files
     [(''A.fasta'', [\<lparr>record_id = ''x'', name = ''x'', description = ''x'', seq = ''MKV''\<rparr>]),
      (''notes.txt'', []),
      (''b.fa'', [\<lparr>record_id = ''y'', name = ''y'', description = ''y'', seq = ''MA''\<rparr>])] =
     [\<lparr>record_id = ''A|x'', name = ''x'', description = [], seq = ''MKV''\<rparr>,
      \<lparr>record_id = ''b|y'', name = ''y'', description = [], seq = ''MA''\<rparr>]"
proof -
  let ?y = "\<lparr>record_id = ''y'', name = ''y'', description = ''y'', seq = ''MA''\<rparr>"
  let ?x = "\<lparr>record_id = ''x'', name = ''x'', description = ''x'', seq = ''MKV''\<rparr>"
  let ?listing = "[(''b.fa'', [?y]), (''notes.txt'', []), (''A.fasta'', [?x])]"
  let ?listing' = "[(''A.fasta'', [?x]), (''notes.txt'', []), (''b.fa'', [?y])]"
  have first: "merge_fasta_files ?listing =
     [\<lparr>record_id = ''A|x'', name = ''x'', description = [], seq = ''MKV''\<rparr>,
      \<lparr>record_id = ''b|y'', name = ''y'', description = [], seq = ''MA''\<rparr>]"
    by code_simp
  have same: "mset ?listing' = mset ?listing"
    by simp
  have "distinct (map (\<lambda>record. natsort_key (lower (record_id record)))
      (merge_files ?listing []))"
    by code_simp
  then have "inj_on (\<lambda>record. natsort_key (lower (record_id record)))
      (set (merge_files ?listing []))"
    by (simp only: distinct_map)
  with same merge_fasta_files_sorted_renamed_copies [of ?listing]
  have "merge_fasta_files ?listing' = merge_fasta_files ?listing"
    by blast
  with first show ?thesis
    by simp
qed

text \<open>
  Claim C4 as the specification words it fails in its last part: the order of the
  directory listing can change the output. The files \<open>a.fa\<close> and \<open>A.fa\<close>, each with a
  record \<open>x\<close>, give the copies \<open>a|x\<close> and \<open>A|x\<close>, whose lower-cased identifiers are equal;
  the sort leaves such copies in the order the listing gave them.
\<close>

theorem merge_fasta_files_depends_on_listing_order:
  "merge_fasta_files
     [(''a.fa'', [\<lparr>record_id = ''x'', name = ''x'', description = ''x'', seq = ''MKV''\<rparr>]),
      (''A.fa'', [\<lparr>record_id = ''x'', name = ''x'', description = ''x'', seq = ''MA''\<rparr>])] =
     [\<lparr>record_id = ''a|x'', name = ''x'', description = [], seq = ''MKV''\<rparr>,
      \<lparr>record_id = ''A|x'', name = ''x'', description = [], seq = ''MA''\<rparr>] \<and>
   merge_fasta_files
     [(''A.fa'', [\<lparr>record_id = ''x'', name = ''x'', description = ''x'', seq = ''MA''\<rparr>]),
      (''a.fa'', [\<lparr>record_id = ''x'', name = ''x'', description = ''x'', seq = ''MKV''\<rparr>])] =
     [\<lparr>record_id = ''A|x'', name = ''x'', description = [], seq = ''MA''\<rparr>,
      \<lparr>record_id = ''a|x'', name = ''x'', description = [], seq = ''MKV''\<rparr>]"
  by code_simp

section \<open>Descriptions of the records written\<close>

text \<open>
  Claim C7, as the code has it. Every record that extract\_and\_rename\_sequences.py and
  merge\_fasta\_files.py hand to the writer has an empty description. Every record that
  keep\_verified\_sequences.py hands to the writer is a record of its input as it was
  parsed, with the description it was parsed with.
\<close>

theorem written_descriptions:
  "(\<forall>written. extract_and_rename_sequences input list_lines = Inr written \<longrightarrow>
      (\<forall>record\<in>set written. description record = [])) \<and>
   (\<forall>record\<in>set (merge_fasta_files listing). description record = []) \<and>
   (\<forall>record\<in>set (keep_verified_sequences input' keep_lines). record \<in> set input')"
proof (intro conjI allI impI ballI)
  fix written r
  assume "extract_and_rename_sequences input list_lines = Inr written" and "r \<in> set written"
  then obtain sequences where "r \<in> set (extract_records sequences input [])"
    by (auto simp add: extract_and_rename_sequences_def natsorted_def split: sum.splits)
  then show "description r = []"
    by (auto simp add: extract_records_concat rename_record_def split: option.splits)
next
  fix r
  assume "r \<in> set (merge_fasta_files listing)"
  then have "r \<in> set (merge_files listing [])"
    by (simp add: merge_fasta_files_def natsorted_def)
  then show "description r = []"
    by (auto simp add: merge_files_concat gene_record_def split: if_splits)
next
  fix r
  assume "r \<in> set (keep_verified_sequences input' keep_lines)"
  then show "r \<in> set input'"
    by (simp add: keep_verified_sequences_filter)
qed

theorem written_descriptions_witness:
  "extract_and_rename_sequences
     [\<lparr>record_id = ''seq1'', name = ''seq1'', description = ''seq1 kinase'', seq = ''MKV''\<rparr>]
     [''alpha seq1''] =
     Inr [\<lparr>record_id = ''alpha|seq1'', name = ''seq1'', description = [], seq = ''MKV''\<rparr>] \<and>
   merge_fasta_files
     [(''A.fasta'',
       [\<lparr>record_id = ''x'', name = ''x'', description = ''x kinase'', seq = ''MKV''\<rparr>])] =
     [\<lparr>record_id = ''A|x'', name = ''x'', description = [], seq = ''MKV''\<rparr>] \<and>
   keep_verified_sequences
     [\<lparr>record_id = ''A|x'', name = ''A|x'', description = ''A|x'', seq = ''MKV''\<rparr>] [''A''] =
     [\<lparr>record_id = ''A|x'', name = ''A|x'', description = ''A|x'', seq = ''MKV''\<rparr>]"
proof -
  have extracted: "extract_and_rename_sequences
     [\<lparr>record_id = ''seq1'', name = ''seq1'', description = ''seq1 kinase'', seq = ''MKV''\<rparr>]
     [''alpha seq1''] =
     Inr [\<lparr>record_id = ''alpha|seq1'', name = ''seq1'', description = [], seq = ''MKV''\<rparr>]"
    by code_simp
  have merged: "merge_fasta_files
     [(''A.fasta'',
       [\<lparr>record_id = ''x'', name = ''x'', description = ''x kinase'', seq = ''MKV''\<rparr>])] =
     [\<lparr>record_id = ''A|x'', name = ''x'', description = [], seq = ''MKV''\<rparr>]"
    by code_simp
  have kept: "keep_verified_sequences
     [\<lparr>record_id = ''A|x'', name = ''A|x'', description = ''A|x'', seq = ''MKV''\<rparr>] [''A''] =
     [\<lparr>record_id = ''A|x'', name = ''A|x'', description = ''A|x'', seq = ''MKV''\<rparr>]"
    by code_simp
  from extracted merged kept
    written_descriptions [of
      "[\<lparr>record_id = ''seq1'', name = ''seq1'', description = ''seq1 kinase'', seq = ''MKV''\<rparr>]"
      "[''alpha seq1'']"
      "[(''A.fasta'',
         [\<lparr>record_id = ''x'', name = ''x'', description = ''x kinase'', seq = ''MKV''\<rparr>])]"
      "[\<lparr>record_id = ''A|x'', name = ''A|x'', description = ''A|x'', seq = ''MKV''\<rparr>]"
      "[''A'']"]
  show ?thesis
    by simp
qed

text \<open>
  Claim C7 as the specification words it fails for keep\_verified\_sequences.py: a kept
  record goes to the writer with its description, here \<open>foo|seq1 kinase\<close>.
\<close>

theorem keep_verified_sequences_keeps_description:
  "map description
     (keep_verified_sequences
        [\<lparr>record_id = ''foo|seq1'', name = ''foo|seq1'', description = ''foo|seq1 kinase'',
            seq = ''MKV''\<rparr>]
        [''foo'']) =
     [''foo|seq1 kinase'']"
  by code_simp

section \<open>The table of generate\_protein\_table.py\<close>

text \<open>
  The keys of a dictionary filled by a loop stand in the order in which the loop first met
  them. For a list \<open>ks\<close>, the list \<open>rev (remdups (rev ks))\<close> has each element of \<open>ks\<close> once,
  at the place of its first occurrence.
\<close>

lemma remdups_snoc: "remdups (xs @ [a]) = remdups (filter (\<lambda>x. x \<noteq> a) xs) @ [a]"
  by (induction xs) auto

lemma first_seen_Cons:
  "rev (remdups (rev (a # xs))) = a # rev (remdups (rev (filter (\<lambda>x. x \<noteq> a) xs)))"
  by (simp add: remdups_snoc rev_filter)

lemma keys_fold_setdefault_append:
  "map fst (fold (\<lambda>x. setdefault_append (f x) (g x)) xs d) =
     map fst d @ rev (remdups (rev (filter (\<lambda>k. k \<notin> set (map fst d)) (map f xs))))"
proof (induction xs arbitrary: d)
  case Nil
  show ?case by simp
next
  case (Cons x xs)
  show ?case
  proof (cases "f x \<in> set (map fst d)")
    case True
    then show ?thesis
      by (simp add: Cons.IH keys_setdefault_append)
  next
    case False
    have "filter (\<lambda>k. k \<noteq> f x \<and> k \<notin> set (map fst d)) (map f xs) =
       filter (\<lambda>k. k \<noteq> f x) (filter (\<lambda>k. k \<notin> set (map fst d)) (map f xs))"
      by (simp add: conj_commute)
    with False show ?thesis
      by (simp add: Cons.IH keys_setdefault_append first_seen_Cons
          del: rev.simps remdups.simps set_map)
  qed
qed

text \<open>\<open>line.strip().split()\<close> gives the tokens of the line: \<open>split()\<close> drops the white
  space at both ends by itself.\<close>

lemma split_from_trailing_space:
  assumes "\<forall>c\<in>set w. isspace c"
  shows "split_from cur (t @ w) = split_from cur t"
proof (induction t arbitrary: cur)
  case Nil
  from assms show ?case
    by (induction w arbitrary: cur) auto
next
  case (Cons c t)
  then show ?case by simp
qed

lemma split_from_leading_space: "split_from [] (dropWhile isspace s) = split_from [] s"
  by (induction s) simp_all

lemma str_split_strip: "str_split (str_strip line) = str_split line"
proof -
  let ?body = "dropWhile isspace line"
  have "?body = rev (dropWhile isspace (rev ?body)) @ rev (takeWhile isspace (rev ?body))"
    by (metis rev_append rev_rev_ident takeWhile_dropWhile_id)
  moreover have "\<forall>c\<in>set (rev (takeWhile isspace (rev ?body))). isspace c"
    by (auto dest: set_takeWhileD)
  ultimately have "split_from [] ?body = split_from [] (rev (dropWhile isspace (rev ?body)))"
    by (metis split_from_trailing_space)
  then show ?thesis
    by (simp add: str_split_def str_strip_def split_from_leading_space)
qed

lemma read_statuses_fold:
  "read_statuses lines d =
     (if \<exists>line\<in>set lines. length (str_split (str_strip line)) \<noteq> 2 then Inl ValueError
      else Inr (fold (\<lambda>line. setdefault_append (str_split (str_strip line) ! 0)
                               (str_split (str_strip line) ! 1)) lines d))"
proof (induction lines arbitrary: d)
  case Nil
  show ?case by simp
next
  case (Cons line rest)
  show ?case
  proof (cases "str_split (str_strip line)")
    case Nil
    then show ?thesis by simp
  next
    case one: (Cons a as)
    show ?thesis
    proof (cases as)
      case Nil
      with one show ?thesis by simp
    next
      case two: (Cons b bs)
      show ?thesis
      proof (cases bs)
        case Nil
        with one two show ?thesis by (simp add: Cons.IH)
      next
        case (Cons c cs)
        with one two show ?thesis by simp
      qed
    qed
  qed
qed

lemma process_files_fold:
  "process_files files d =
     (if \<exists>entry\<in>set files. \<exists>line\<in>set (snd entry). length (str_split (str_strip line)) \<noteq> 2
      then Inl ValueError
      else Inr (fold (\<lambda>line. setdefault_append (str_split (str_strip line) ! 0)
                               (str_split (str_strip line) ! 1)) (concat (map snd files)) d))"
proof (induction files arbitrary: d)
  case Nil
  show ?case by simp
next
  case (Cons entry rest)
  obtain f ls where entry: "entry = (f, ls)"
    by (cases entry)
  show ?case
    unfolding entry by (simp add: read_statuses_fold Cons.IH)
qed

text \<open>
  Claim C6. Let the script produce a table, let \<open>files\<close> be the entries of the folder in
  ascending order of their lower-cased names, and let \<open>status_lines\<close> be the lines of
  these files one file after the other. The header row is an empty cell and then the file
  names in that order. The rows stand in the order in which \<open>status_lines\<close> first names
  their proteins, one row for each protein. The row of a protein holds, for each line
  that names it and in the order of those lines, 0 when the status token is \<open>missing\<close> and
  1 otherwise: a protein that some file does not name has a shorter row, with no filling.
\<close>

theorem generate_protein_table_rows:
  assumes "generate_protein_table listing = Inr (header_row, rows)"
    and "files = sort_key (\<lambda>entry. lower (fst entry)) listing"
    and "status_lines = concat (map snd files)"
  shows "header_row = [] # map fst files \<and>
         sorted (map (\<lambda>entry. lower (fst entry)) files) \<and>
         mset files = mset listing \<and>
         map fst rows = rev (remdups (rev (map (\<lambda>line. str_split line ! 0) status_lines))) \<and>
         (\<forall>(protein, row)\<in>set rows.
            row = [if str_split line ! 1 = ''missing'' then 0 else 1.
                     line \<leftarrow> status_lines, str_split line ! 0 = protein])"
proof -
  let ?f = "\<lambda>line. str_split line ! 0" and ?g = "\<lambda>line. str_split line ! 1"
  define protein_info where
    "protein_info = fold (\<lambda>line. setdefault_append (?f line) (?g line)) status_lines []"
  from assms
  have "\<not> (\<exists>entry\<in>set files. \<exists>line\<in>set (snd entry).
      length (str_split (str_strip line)) \<noteq> 2)"
    by (auto simp add: generate_protein_table_def Let_def process_files_fold split: if_splits)
  with assms have header: "header_row = [] # map fst files"
    and rows: "rows = map (\<lambda>(protein, statuses). (protein, map presence statuses)) protein_info"
    by (simp_all add: generate_protein_table_def Let_def process_files_fold str_split_strip
        protein_info_def)
  have keys: "map fst protein_info = rev (remdups (rev (map ?f status_lines)))"
    unfolding protein_info_def by (simp add: keys_fold_setdefault_append)
  then have distinct: "distinct (map fst protein_info)"
    by simp
  have row: "row = [if ?g line = ''missing'' then 0 else 1.
      line \<leftarrow> status_lines, ?f line = protein]"
    if "(protein, row) \<in> set rows" for protein row
  proof -
    from that rows obtain statuses
      where entry: "(protein, statuses) \<in> set protein_info" and r: "row = map presence statuses"
      by auto
    from distinct entry have "map_of protein_info protein = Some statuses"
      by simp
    then have "statuses = map ?g (filter (\<lambda>line. ?f line = protein) status_lines)"
      unfolding protein_info_def
      by (simp add: map_of_fold_setdefault_append split: list.splits)
    moreover have "[if ?g line = ''missing'' then 0 else 1. line \<leftarrow> xs, ?f line = protein] =
        map presence (map ?g (filter (\<lambda>line. ?f line = protein) xs))" for xs
      by (induction xs) (simp_all add: presence_def)
    ultimately show ?thesis
      using r by simp
  qed
  from rows keys have "map fst rows = rev (remdups (rev (map ?f status_lines)))"
    by (simp add: case_prod_unfold comp_def)
  with header row assms(2) show ?thesis
    by auto
qed

theorem generate_protein_table_rows_witness:
  "generate_protein_table
     [(''speciesB'', [''p1 missing'']), (''speciesA'', [''p1 present'', ''p2 missing''])] =
     Inr ([[], ''speciesA'', ''speciesB''], [(''p1'', [1, 0]), (''p2'', [0])]) \<and>
   [[], ''speciesA'', ''speciesB''] =
     [] # map fst (sort_key (\<lambda>entry. lower (fst entry))
       [(''speciesB'', [''p1 missing'']), (''speciesA'', [''p1 present'', ''p2 missing''])])"
proof -
  have table: "generate_protein_table
     [(''speciesB'', [''p1 missing'']), (''speciesA'', [''p1 present'', ''p2 missing''])] =
     Inr ([[], ''speciesA'', ''speciesB''], [(''p1'', [1, 0]), (''p2'', [0])])"
    by code_simp
  from generate_protein_table_rows [OF table refl refl]
  have "[[], ''speciesA'', ''speciesB''] =
     [] # map fst (sort_key (\<lambda>entry. lower (fst entry))
       [(''speciesB'', [''p1 missing'']), (''speciesA'', [''p1 present'', ''p2 missing''])])"
    by (rule conjunct1)
  with table show ?thesis
    by (rule conjI)
qed



section \<open>Two runs on the same input\<close>




end
